theory Spec2Isabelle
  imports Main
begin

section \<open>Engine scores and the info handler\<close>

text \<open>
  The exceptions of Python that the annotator can raise are values of \<open>error\<close>; a
  function of the source that can raise returns \<open>error + 'a\<close>, with \<open>Inl\<close> the exception.
\<close>

datatype error =
  UnboundLocalError | KeyError | IndexError | AttributeError | ValueError | RecursionError

text \<open>
  A move of the chess library: origin square, destination square, promotion piece.
  Equality of moves is equality of these three.
\<close>

datatype move = Move nat nat "nat option"

text \<open>
  The score the engine reports, as far as the annotator reads it: a centipawn value or
  a distance to mate, each possibly absent (\<open>None\<close>).
\<close>

record score =
  cp :: "int option"
  mate :: "int option"

text \<open>
  The info handler keeps the latest \<open>info\<close> of the engine: \<open>info["score"]\<close> and
  \<open>info["pv"]\<close> are dictionaries keyed by the multipv number; the annotator reads key 1.
\<close>

record info_handler =
  info_score :: "nat \<rightharpoonup> score"
  info_pv :: "nat \<rightharpoonup> move list"

section \<open>Evaluation normalizer\<close>

definition max_score :: int where
  "max_score = 10000"

text \<open>
  \<open>eval_numeric\<close>: the variable \<open>result\<close> is assigned in the two branches only, so with
  neither a mate nor a centipawn score \<open>return result\<close> raises UnboundLocalError.
\<close>

definition eval_numeric :: "info_handler \<Rightarrow> error + int" where
  "eval_numeric ih =
     (case info_score ih 1 of
        None \<Rightarrow> Inl KeyError
      | Some s \<Rightarrow>
          (case mate s of
             Some dtm \<Rightarrow>
               Inr (if dtm \<ge> 1 then max_score - dtm else - (max_score - dtm))
           | None \<Rightarrow>
               (case cp s of
                  Some c \<Rightarrow> Inr c
                | None \<Rightarrow> Inl UnboundLocalError)))"

subsection \<open>Decimal text\<close>

definition digit_char :: "nat \<Rightarrow> char" where
  "digit_char d = ''0123456789'' ! (d mod 10)"

fun str_nat :: "nat \<Rightarrow> string" where
  "str_nat n = (if n < 10 then [digit_char n] else str_nat (n div 10) @ [digit_char (n mod 10)])"

declare str_nat.simps [simp del]

definition str_int :: "int \<Rightarrow> string" where
  "str_int i = (if i < 0 then ''-'' @ str_nat (nat (- i)) else str_nat (nat i))"

text \<open>
  The floats of the annotator are quotients of a centipawn value by 100 or by -100, and
  their negations. Such a float is kept as its sign bit and its magnitude in hundredths,
  so that the negative zero of \<open>0 / -100\<close> is a value of its own. The magnitude is
  exact; the double of Python renders the same two decimals below 2^52 hundredths.
\<close>

datatype pyfloat = PyFloat (negative: bool) (hundredths: nat)

text \<open>True division \<open>a / b\<close> of two integers, exact for the divisors 100 and -100.\<close>

definition truediv :: "int \<Rightarrow> int \<Rightarrow> pyfloat" where
  "truediv a b = PyFloat ((a < 0) \<noteq> (b < 0)) (nat (\<bar>a\<bar> * 100 div \<bar>b\<bar>))"

definition fneg :: "pyfloat \<Rightarrow> pyfloat" where
  "fneg x = PyFloat (\<not> negative x) (hundredths x)"

text \<open>\<open>'{:.2f}'.format(x)\<close>\<close>

definition format_2f :: "pyfloat \<Rightarrow> string" where
  "format_2f x =
     (if negative x then ''-'' else '''') @ str_nat (hundredths x div 100) @ ''.''
       @ [digit_char (hundredths x mod 100 div 10), digit_char (hundredths x mod 10)]"

text \<open>
  \<open>str(x)\<close> of a float: the shortest decimal text, with at least one decimal (Python
  writes an exponent from 10^16 on, which no engine score reaches).
\<close>

definition str_float :: "pyfloat \<Rightarrow> string" where
  "str_float x =
     (if negative x then ''-'' else '''') @ str_nat (hundredths x div 100) @ ''.''
       @ (if hundredths x mod 10 = 0 then [digit_char (hundredths x mod 100 div 10)]
          else [digit_char (hundredths x mod 100 div 10), digit_char (hundredths x mod 10)])"

text \<open>
  What \<open>eval_human\<close> returns: the pair \<open>("Mate in ", mate)\<close> of its first branch, the
  text of its second, or \<open>None\<close> when the function ends without a \<open>return\<close>.
\<close>

datatype human = Pair_of string int | Text string | Nothing

definition eval_human :: "info_handler \<Rightarrow> error + human" where
  "eval_human ih =
     (case info_score ih 1 of
        None \<Rightarrow> Inl KeyError
      | Some s \<Rightarrow>
          (case mate s of
             Some m \<Rightarrow> Inr (Pair_of ''Mate in '' m)
           | None \<Rightarrow>
               (case cp s of
                  Some c \<Rightarrow> Inr (Text (str_float (truediv c 100)))
                | None \<Rightarrow> Inr Nothing)))"

definition eval_absolute :: "pyfloat \<Rightarrow> bool \<Rightarrow> string" where
  "eval_absolute number white_to_move =
     format_2f (if \<not> white_to_move then fneg number else number)"

section \<open>Judgments and the quality classifier\<close>

text \<open>
  A judgment is the dictionary \<open>judge_move\<close> builds. The two comments are set in an
  \<open>if\<close>/\<open>elif\<close> without \<open>else\<close>, so each key may be absent (\<open>None\<close>).
\<close>

record move_judgment =
  bestmove :: "move option"
  besteval :: int
  pv :: "move list"
  bestcomment :: "string option"
  playedeval :: int
  playedcomment :: "string option"

definition needs_annotation :: "move_judgment \<Rightarrow> bool" where
  "needs_annotation j = (playedeval j - besteval j < - 50)"

text \<open>
  Modelled from the spec: the quality glyphs of the chess library (dubious, mistake,
  blunder), with their numbers in the PGN standard.
\<close>

definition NAG_MISTAKE :: nat where "NAG_MISTAKE = 2"
definition NAG_BLUNDER :: nat where "NAG_BLUNDER = 4"
definition NAG_DUBIOUS_MOVE :: nat where "NAG_DUBIOUS_MOVE = 6"

definition get_nags :: "move_judgment \<Rightarrow> nat list" where
  "get_nags j =
     (let delta = playedeval j - besteval j;
          nags = [];
          nags = (if delta < - 300 then [NAG_BLUNDER]
                  else if delta < - 150 then [NAG_MISTAKE]
                  else if delta < - 75 then [NAG_DUBIOUS_MOVE]
                  else nags);
          nags = (if playedeval j > 800 then [] else nags);
          nags = (if besteval j < - 800 then [] else nags)
      in nags)"

section \<open>Boards and the engine session\<close>

text \<open>
  Modelled from the spec: the board of the chess library, which is not among the
  sources; a position "supports move application/unapplication (push/pop)". The model
  keeps what the annotator reads: the side to move (\<open>True\<close> is White), the position the
  game started from and the stack of the moves made since. \<open>push\<close> makes a move and
  \<open>pop\<close> takes the last one back; \<open>pop\<close> on an empty stack raises IndexError.
\<close>

record board =
  turn :: bool
  start :: string
  move_stack :: "move list"

definition push :: "board \<Rightarrow> move \<Rightarrow> board" where
  "push b m = b\<lparr>turn := \<not> turn b, move_stack := move_stack b @ [m]\<rparr>"

definition pop :: "board \<Rightarrow> error + (move \<times> board)" where
  "pop b =
     (if move_stack b = [] then Inl IndexError
      else Inr (last (move_stack b),
                b\<lparr>turn := \<not> turn b, move_stack := butlast (move_stack b)\<rparr>))"

text \<open>
  Modelled from the spec: the engine session of the chess library, which is not among
  the sources; the engine "accepts a position, runs a search, returns results": a best
  move, a score and a principal variation. The engine is a process outside the
  program. What it answers to a search is the parameter \<open>search\<close>: from the state of the
  process, the position set and the depth, the new state of the process and the
  response (best move, and the score and principal variation that reach the info
  handler). The session records the commands sent to the process, in order.
\<close>

datatype command = Position board | Go int

record response =
  r_bestmove :: "move option"
  r_score :: "nat \<rightharpoonup> score"
  r_pv :: "nat \<rightharpoonup> move list"

record 'e engine =
  process :: 'e
  engine_board :: board
  engine_bestmove :: "move option"
  sent :: "command list"

type_synonym 'e search = "'e \<Rightarrow> board \<Rightarrow> int \<Rightarrow> 'e \<times> response"

definition position :: "'e engine \<Rightarrow> board \<Rightarrow> 'e engine" where
  "position engine b = engine\<lparr>engine_board := b, sent := sent engine @ [Position b]\<rparr>"

definition go :: "'e search \<Rightarrow> 'e engine \<Rightarrow> info_handler \<Rightarrow> int \<Rightarrow> 'e engine \<times> info_handler" where
  "go search engine ih depth =
     (let (p, r) = search (process engine) (engine_board engine) depth
      in (engine\<lparr>process := p, engine_bestmove := r_bestmove r,
                  sent := sent engine @ [Go depth]\<rparr>,
          ih\<lparr>info_score := r_score r, info_pv := r_pv r\<rparr>))"

text \<open>The searches a session has run: the \<open>go\<close> commands among those sent.\<close>

fun is_go :: "command \<Rightarrow> bool" where
  "is_go (Go d) = True"
| "is_go (Position b) = False"

definition searches :: "'e engine \<Rightarrow> nat" where
  "searches engine = length (filter is_go (sent engine))"

section \<open>Move judge\<close>

definition ebind :: "error + 'a \<Rightarrow> ('a \<Rightarrow> error + 'b) \<Rightarrow> error + 'b" where
  "ebind x f = (case x of Inl e \<Rightarrow> Inl e | Inr v \<Rightarrow> f v)"

text \<open>Reading a key of a dictionary: KeyError when the key is absent.\<close>

definition key :: "'v option \<Rightarrow> error + 'v" where
  "key v = (case v of None \<Rightarrow> Inl KeyError | Some x \<Rightarrow> Inr x)"

definition lookup :: "('k \<rightharpoonup> 'v) \<Rightarrow> 'k \<Rightarrow> error + 'v" where
  "lookup d k = key (d k)"

text \<open>\<open>"Mate in {}".format(abs(m))\<close>\<close>

definition mate_in :: "int \<Rightarrow> string" where
  "mate_in m = ''Mate in '' @ str_nat (nat \<bar>m\<bar>)"

text \<open>
  \<open>judge_move\<close> returns the judgment together with the three objects it mutates: the
  board, the engine session and the info handler.
\<close>

definition judge_move ::
  "'e search \<Rightarrow> board \<Rightarrow> move \<Rightarrow> 'e engine \<Rightarrow> info_handler \<Rightarrow> int
     \<Rightarrow> error + (move_judgment \<times> board \<times> 'e engine \<times> info_handler)" where
  "judge_move search board played_move engine ih searchdepth =
     (let engine = position engine board;
          (engine, ih) = go search engine ih searchdepth;
          best = engine_bestmove engine
      in ebind (eval_numeric ih) (\<lambda>best_eval.
         ebind (lookup (info_pv ih) 1) (\<lambda>line.
         ebind (lookup (info_score ih) 1) (\<lambda>s.
         let best_comment =
               (case mate s of
                  Some m \<Rightarrow> Some (mate_in m)
                | None \<Rightarrow>
                    (case cp s of
                       Some c \<Rightarrow> Some (eval_absolute (truediv c 100) (turn board))
                     | None \<Rightarrow> None))
         in ebind
              (if Some played_move = best then Inr (best_eval, board, engine, ih)
               else
                 let board = push board played_move;
                     engine = position engine board;
                     (engine, ih) = go search engine ih searchdepth
                 in ebind (eval_numeric ih) (\<lambda>v.
                    ebind (pop board) (\<lambda>(m, board).
                    Inr (- v, board, engine, ih))))
              (\<lambda>(played_eval, board, engine, ih).
                 ebind (lookup (info_score ih) 1) (\<lambda>s.
                 let played_comment =
                       (case mate s of
                          Some m \<Rightarrow> Some (mate_in m)
                        | None \<Rightarrow>
                            (case cp s of
                               Some c \<Rightarrow> Some (eval_absolute (truediv c (- 100)) (turn board))
                             | None \<Rightarrow> None))
                 in Inr (\<lparr>bestmove = best, besteval = best_eval, pv = line,
                           bestcomment = best_comment, playedeval = played_eval,
                           playedcomment = played_comment\<rparr>,
                         board, engine, ih)))))))"

section \<open>Game tree\<close>

text \<open>
  Modelled from the spec: the game tree of the chess library, which is not among the
  sources; "each non-root node owns exactly one move", a comment and its glyphs, "a
  node may own zero or more variations; exactly one child is distinguished as the main
  line", and demoting "changes which child is main without removing any child". The
  nodes are objects that refer to each other (\<open>parent\<close>, \<open>variations\<close>) and are mutated
  in place, so they live in a store: a node is a reference, \<open>nodes\<close> gives the object at
  a reference and \<open>next_ref\<close> is the next reference to allocate. The first of a node's
  variations is its main line. The root has no parent and no move; \<open>game_board\<close> is the
  board of the root.
\<close>

type_synonym ref = nat

record game_node =
  parent :: "ref option"
  move :: "move option"
  comment :: string
  nags :: "nat list"
  variations :: "ref list"

record store =
  nodes :: "ref \<Rightarrow> game_node"
  next_ref :: ref
  game_board :: board

definition update_node :: "store \<Rightarrow> ref \<Rightarrow> (game_node \<Rightarrow> game_node) \<Rightarrow> store" where
  "update_node st r f = st\<lparr>nodes := (nodes st)(r := f (nodes st r))\<rparr>"

text \<open>
  Modelled from the spec: \<open>add_variation\<close> of the chess library attaches a new child,
  appended to the variations.
\<close>

definition add_variation :: "store \<Rightarrow> ref \<Rightarrow> move option \<Rightarrow> ref \<times> store" where
  "add_variation st p m =
     (let n = next_ref st;
          st = st\<lparr>nodes := (nodes st)(n := \<lparr>parent = Some p, move = m, comment = [],
                                              nags = [], variations = []\<rparr>),
                  next_ref := Suc n\<rparr>;
          st = update_node st p (\<lambda>nd. nd\<lparr>variations := variations nd @ [n]\<rparr>)
      in (n, st))"

text \<open>
  Modelled from the spec: \<open>add_main_variation\<close> of the chess library attaches a new
  child and makes it the main child: it is removed from the list and put first.
\<close>

definition add_main_variation :: "store \<Rightarrow> ref \<Rightarrow> move option \<Rightarrow> ref \<times> store" where
  "add_main_variation st p m =
     (let (n, st) = add_variation st p m;
          st = update_node st p (\<lambda>nd. nd\<lparr>variations := n # remove1 n (variations nd)\<rparr>)
      in (n, st))"

text \<open>
  Modelled from the spec: \<open>variation\<close> of the chess library finds the first child with
  the given move; querying a variation that does not exist is fatal (KeyError).
\<close>

definition variation :: "store \<Rightarrow> ref \<Rightarrow> move option \<Rightarrow> error + ref" where
  "variation st p m =
     (case find (\<lambda>r. move (nodes st r) = m) (variations (nodes st p)) of
        None \<Rightarrow> Inl KeyError
      | Some r \<Rightarrow> Inr r)"

text \<open>\<open>list.index\<close>\<close>

fun index_of :: "'a list \<Rightarrow> 'a \<Rightarrow> error + nat" where
  "index_of [] x = Inl ValueError"
| "index_of (y # ys) x =
     (if y = x then Inr 0
      else case index_of ys x of Inl e \<Rightarrow> Inl e | Inr i \<Rightarrow> Inr (Suc i))"

text \<open>
  Modelled from the spec: \<open>demote\<close> of the chess library changes which child is main
  without removing any child: the variation moves one place down, unless it is the last
  already.
\<close>

definition demote :: "store \<Rightarrow> ref \<Rightarrow> move option \<Rightarrow> error + store" where
  "demote st p m =
     ebind (variation st p m) (\<lambda>v.
     let vs = variations (nodes st p)
     in ebind (index_of vs v) (\<lambda>i.
        Inr (if i + 1 < length vs
             then update_node st p
                    (\<lambda>nd. nd\<lparr>variations := vs[i + 1 := vs ! i, i := vs ! (i + 1)]\<rparr>)
             else st)))"

section \<open>Annotation inserter\<close>

text \<open>The slice \<open>xs[:n]\<close>: a negative \<open>n\<close> counts from the end of the list.\<close>

definition slice_to :: "'a list \<Rightarrow> int \<Rightarrow> 'a list" where
  "slice_to xs n = (if 0 \<le> n then take (nat n) xs else take (length xs - nat (- n)) xs)"

text \<open>
  The loop of \<open>add_annotation\<close> over the truncated principal variation: a move that
  differs from the move of \<open>var_node\<close> becomes its main variation and the new
  \<open>var_node\<close>.
\<close>

fun add_pv :: "store \<Rightarrow> ref \<Rightarrow> move list \<Rightarrow> error + (store \<times> ref)" where
  "add_pv st var_node [] = Inr (st, var_node)"
| "add_pv st var_node (m # ms) =
     (if move (nodes st var_node) \<noteq> Some m
      then (case variation (snd (add_main_variation st var_node (Some m))) var_node (Some m) of
              Inl e \<Rightarrow> Inl e
            | Inr v \<Rightarrow> add_pv (snd (add_main_variation st var_node (Some m))) v ms)
      else add_pv st var_node ms)"

definition add_annotation :: "store \<Rightarrow> ref \<Rightarrow> move_judgment \<Rightarrow> int \<Rightarrow> error + store" where
  "add_annotation st node j searchdepth =
     (let prev_node = parent (nodes st node)
      in ebind
           (if bestmove j \<noteq> move (nodes st node)
            then ebind (key (playedcomment j)) (\<lambda>c.
                 Inr (update_node st node (\<lambda>nd. nd\<lparr>comment := c\<rparr>)))
            else Inr st) (\<lambda>st.
         case prev_node of
           None \<Rightarrow> Inl AttributeError
         | Some prev_node \<Rightarrow>
             let st = snd (add_main_variation st prev_node (bestmove j))
             in ebind (variation st prev_node (bestmove j)) (\<lambda>var_node.
                let max_var_length = searchdepth div 2
                in ebind (add_pv st var_node (slice_to (pv j) max_var_length)) (\<lambda>(st, var_node).
                   ebind (key (bestcomment j)) (\<lambda>c.
                   let st = update_node st var_node (\<lambda>nd. nd\<lparr>comment := c\<rparr>)
                   in ebind (demote st prev_node (bestmove j)) (\<lambda>st.
                      Inr (update_node st node (\<lambda>nd. nd\<lparr>nags := get_nags j\<rparr>))))))))"

section \<open>Game walker\<close>

text \<open>
  Modelled from the spec: the game-over predicates of a position (checkmate, stalemate,
  insufficient material, fifty-move rule, threefold repetition claim) belong to the
  chess library; the walker reads them through these predicates on a board, which are
  parameters.
\<close>

record rules =
  is_game_over :: "board \<Rightarrow> bool"
  is_stalemate :: "board \<Rightarrow> bool"
  is_insufficient_material :: "board \<Rightarrow> bool"
  can_claim_fifty_moves :: "board \<Rightarrow> bool"
  can_claim_threefold_repetition :: "board \<Rightarrow> bool"
  is_checkmate :: "board \<Rightarrow> bool"

text \<open>
  Modelled from the spec: \<open>node.board()\<close> of the chess library gives the position of
  a node. It calls itself on the parent and pushes the node's move; the root answers
  with the board of the game. The recursion is bounded by the interpreter's recursion
  limit, past which it raises RecursionError.
\<close>

definition recursion_limit :: nat where
  "recursion_limit = 1000"

fun board_upto :: "nat \<Rightarrow> store \<Rightarrow> ref \<Rightarrow> error + board" where
  "board_upto fuel st r =
     (if fuel = 0 then Inl RecursionError
      else case parent (nodes st r) of
             None \<Rightarrow> Inr (game_board st)
           | Some p \<Rightarrow>
               (case board_upto (fuel - 1) st p of
                  Inl e \<Rightarrow> Inl e
                | Inr b \<Rightarrow>
                    (case move (nodes st r) of
                       None \<Rightarrow> Inl AttributeError
                     | Some m \<Rightarrow> Inr (push b m))))"

declare board_upto.simps [simp del]

definition board_of :: "store \<Rightarrow> ref \<Rightarrow> error + board" where
  "board_of st r = board_upto recursion_limit st r"

definition var_end_comment :: "rules \<Rightarrow> store \<Rightarrow> ref \<Rightarrow> string \<Rightarrow> error + string" where
  "var_end_comment rules st node score =
     ebind (board_of st node) (\<lambda>b.
     Inr (if is_stalemate rules b then ''Stalemate''
          else if is_insufficient_material rules b then ''Insufficient material to mate''
          else if can_claim_fifty_moves rules b then ''Fifty move rule''
          else if can_claim_threefold_repetition rules b then ''Three-fold repetition''
          else if is_checkmate rules b then []
          else score))"

text \<open>
  The move of a node that has a parent, as \<open>judge_move\<close> takes it. Only the root has no
  move; for any other node without one the model raises AttributeError.
\<close>

definition played :: "store \<Rightarrow> ref \<Rightarrow> error + move" where
  "played st node = (case move (nodes st node) of None \<Rightarrow> Inl AttributeError | Some m \<Rightarrow> Inr m)"

text \<open>The analysis of the final position (the diagnostic prints are left out).\<close>

definition analyze_final ::
  "'e search \<Rightarrow> rules \<Rightarrow> int \<Rightarrow> store \<Rightarrow> ref \<Rightarrow> 'e engine \<Rightarrow> info_handler
     \<Rightarrow> error + (store \<times> 'e engine \<times> info_handler)" where
  "analyze_final search rules depth st node engine ih =
     ebind (board_of st node) (\<lambda>b.
     if is_game_over rules b
     then ebind (var_end_comment rules st node []) (\<lambda>c.
          Inr (update_node st node (\<lambda>nd. nd\<lparr>comment := c\<rparr>), engine, ih))
     else (case parent (nodes st node) of
             None \<Rightarrow> Inl AttributeError
           | Some prev_node \<Rightarrow>
               ebind (board_of st prev_node) (\<lambda>pb.
               ebind (played st node) (\<lambda>m.
               ebind (judge_move search pb m engine ih depth) (\<lambda>(j, pb, engine, ih).
               ebind (add_annotation st node j depth) (\<lambda>st.
               Inr (st, engine, ih)))))))"

text \<open>The body of the backward loop: it ends at the parent of the node.\<close>

definition walk_step ::
  "'e search \<Rightarrow> int \<Rightarrow> store \<Rightarrow> ref \<Rightarrow> 'e engine \<Rightarrow> info_handler
     \<Rightarrow> error + (store \<times> ref \<times> 'e engine \<times> info_handler)" where
  "walk_step search depth st node engine ih =
     (case parent (nodes st node) of
        None \<Rightarrow> Inl AttributeError
      | Some prev_node \<Rightarrow>
          ebind (board_of st prev_node) (\<lambda>pb.
          ebind (played st node) (\<lambda>m.
          ebind (judge_move search pb m engine ih depth) (\<lambda>(j, pb, engine, ih).
          ebind (if needs_annotation j then add_annotation st node j depth else Inr st) (\<lambda>st.
          Inr (st, prev_node, engine, ih))))))"

text \<open>
  Modelled from the spec: \<open>root\<close> and \<open>end\<close> of the chess library follow the parents up
  to the game's start and the main line down to the last move. A loop that does not
  end has no result (\<open>None\<close>).
\<close>

partial_function (option) root :: "store \<Rightarrow> ref \<Rightarrow> ref option" where
  "root st r = (case parent (nodes st r) of None \<Rightarrow> Some r | Some p \<Rightarrow> root st p)"

partial_function (option) end_node :: "store \<Rightarrow> ref \<Rightarrow> ref option" where
  "end_node st r = (case variations (nodes st r) of [] \<Rightarrow> Some r | v # vs \<Rightarrow> end_node st v)"

text \<open>The loop of \<open>main\<close>, from the node back to the root.\<close>

partial_function (option) walk ::
  "'e search \<Rightarrow> int \<Rightarrow> ref \<Rightarrow> store \<Rightarrow> ref option \<Rightarrow> 'e engine \<Rightarrow> info_handler
     \<Rightarrow> (error + (store \<times> ref \<times> 'e engine \<times> info_handler)) option" where
  "walk search depth game st node engine ih =
     (case root st game of
        None \<Rightarrow> None
      | Some the_root \<Rightarrow>
          (case node of
             None \<Rightarrow> Some (Inl AttributeError)
           | Some n \<Rightarrow>
               if n = the_root then Some (Inr (st, n, engine, ih))
               else (case walk_step search depth st n engine ih of
                       Inl e \<Rightarrow> Some (Inl e)
                     | Inr (st, prev_node, engine, ih) \<Rightarrow>
                         walk search depth game st (Some prev_node) engine ih)))"

text \<open>
  \<open>main\<close>, from the game read to the annotated game: \<open>depth_arg\<close> is the depth given on
  the command line, \<open>name\<close> the name the engine gave itself.
\<close>

definition main ::
  "'e search \<Rightarrow> rules \<Rightarrow> string \<Rightarrow> int option \<Rightarrow> store \<Rightarrow> ref \<Rightarrow> 'e engine \<Rightarrow> info_handler
     \<Rightarrow> (error + store) option" where
  "main search rules name depth_arg st game engine ih =
     (let depth = (case depth_arg of Some d \<Rightarrow> d | None \<Rightarrow> 12)
      in case end_node st game of
           None \<Rightarrow> None
         | Some node \<Rightarrow>
             (case analyze_final search rules depth st node engine ih of
                Inl e \<Rightarrow> Some (Inl e)
              | Inr (st, engine, ih) \<Rightarrow>
                  (case walk search depth game st (parent (nodes st node)) engine ih of
                     None \<Rightarrow> None
                   | Some (Inl e) \<Rightarrow> Some (Inl e)
                   | Some (Inr (st, node, engine, ih)) \<Rightarrow>
                       Some (Inr (update_node st node
                         (\<lambda>nd. nd\<lparr>comment := name @ '' Depth: '' @ str_int depth\<rparr>))))))"

section \<open>Specification-side definitions\<close>

text \<open>
  The moves of a principal variation that the inserter is to add below a node whose
  move is \<open>prev\<close>: every move but one that repeats the move added last.
\<close>

fun inserted :: "move option \<Rightarrow> move list \<Rightarrow> move list" where
  "inserted prev [] = []"
| "inserted prev (m # ms) =
     (if prev \<noteq> Some m then m # inserted (Some m) ms else inserted prev ms)"

definition pv_moves :: "move_judgment \<Rightarrow> int \<Rightarrow> move list" where
  "pv_moves j searchdepth = inserted (bestmove j) (slice_to (pv j) (searchdepth div 2))"

text \<open>
  The main line below a node, read from the store: the node, its first variation, the
  first variation of that, and so on for at most \<open>k\<close> nodes.
\<close>

fun line_refs :: "nat \<Rightarrow> store \<Rightarrow> ref \<Rightarrow> ref list" where
  "line_refs 0 st r = []"
| "line_refs (Suc k) st r =
     r # (case variations (nodes st r) of [] \<Rightarrow> [] | v # vs \<Rightarrow> line_refs k st v)"

text \<open>The bound a mate score of distance \<open>m\<close> is measured from.\<close>

definition dominant_bound :: "int \<Rightarrow> int" where
  "dominant_bound m = (if 1 \<le> m then 10000 else - 10000)"

section \<open>A small game and a scripted engine\<close>

text \<open>
  Concrete inputs for the closed theorems below: info handlers holding one score, a
  judgment with given evaluations, a game of two moves (1. d4 d5), an engine that
  prefers 1. e4 in the initial position and 1... d5 after 1. d4, and an engine whose
  responses carry no score.
\<close>

definition mate_score :: "int \<Rightarrow> info_handler" where
  "mate_score m = \<lparr>info_score = [1 \<mapsto> \<lparr>cp = None, mate = Some m\<rparr>], info_pv = Map.empty\<rparr>"

definition cp_score :: "int \<Rightarrow> info_handler" where
  "cp_score c = \<lparr>info_score = [1 \<mapsto> \<lparr>cp = Some c, mate = None\<rparr>], info_pv = Map.empty\<rparr>"

definition no_score :: info_handler where
  "no_score = \<lparr>info_score = [1 \<mapsto> \<lparr>cp = None, mate = None\<rparr>], info_pv = Map.empty\<rparr>"

definition judged :: "int \<Rightarrow> int \<Rightarrow> move_judgment" where
  "judged p b = \<lparr>bestmove = None, besteval = b, pv = [], bestcomment = None,
                 playedeval = p, playedcomment = None\<rparr>"

definition e2e4 :: move where "e2e4 = Move 12 28 None"
definition d2d4 :: move where "d2d4 = Move 11 27 None"
definition e7e5 :: move where "e7e5 = Move 52 36 None"
definition d7d5 :: move where "d7d5 = Move 51 35 None"
definition g1f3 :: move where "g1f3 = Move 6 21 None"

definition initial_board :: board where
  "initial_board = \<lparr>turn = True, start = ''startpos'', move_stack = []\<rparr>"

definition first_response :: response where
  "first_response =
     \<lparr>r_bestmove = Some e2e4, r_score = [1 \<mapsto> \<lparr>cp = Some 35, mate = None\<rparr>],
      r_pv = [1 \<mapsto> [e2e4, e7e5, g1f3]]\<rparr>"

definition second_response :: response where
  "second_response =
     \<lparr>r_bestmove = Some d7d5, r_score = [1 \<mapsto> \<lparr>cp = Some 20, mate = None\<rparr>],
      r_pv = [1 \<mapsto> [d7d5]]\<rparr>"

definition scripted :: "nat search" where
  "scripted p b d = (Suc p, if move_stack b = [] then first_response else second_response)"

definition mute :: "nat search" where
  "mute p b d =
     (Suc p, \<lparr>r_bestmove = Some e2e4, r_score = [1 \<mapsto> \<lparr>cp = None, mate = None\<rparr>],
              r_pv = [1 \<mapsto> [e2e4]]\<rparr>)"

definition idle_engine :: "nat engine" where
  "idle_engine =
     \<lparr>process = 0, engine_board = initial_board, engine_bestmove = None, sent = []\<rparr>"

definition empty_info :: info_handler where
  "empty_info = \<lparr>info_score = Map.empty, info_pv = Map.empty\<rparr>"

definition d4_judgment :: move_judgment where
  "d4_judgment =
     \<lparr>bestmove = Some e2e4, besteval = 35, pv = [e2e4, e7e5, g1f3],
      bestcomment = Some ''0.35'', playedeval = - 20, playedcomment = Some ''-0.20''\<rparr>"

definition d5_judgment :: move_judgment where
  "d5_judgment =
     \<lparr>bestmove = Some d7d5, besteval = 20, pv = [d7d5],
      bestcomment = Some ''-0.20'', playedeval = 20, playedcomment = Some ''0.20''\<rparr>"

definition blank_node :: game_node where
  "blank_node = \<lparr>parent = None, move = None, comment = [], nags = [], variations = []\<rparr>"

definition two_move_game :: store where
  "two_move_game =
     \<lparr>nodes = (\<lambda>r. blank_node)
        (0 := blank_node\<lparr>variations := [1]\<rparr>,
         1 := blank_node\<lparr>parent := Some 0, move := Some d2d4, variations := [2]\<rparr>,
         2 := blank_node\<lparr>parent := Some 1, move := Some d7d5\<rparr>),
      next_ref = 3, game_board = initial_board\<rparr>"

definition no_rules :: rules where
  "no_rules =
     \<lparr>is_game_over = (\<lambda>b. False), is_stalemate = (\<lambda>b. False),
      is_insufficient_material = (\<lambda>b. False), can_claim_fifty_moves = (\<lambda>b. False),
      can_claim_threefold_repetition = (\<lambda>b. False), is_checkmate = (\<lambda>b. False)\<rparr>"

lemmas example_defs = e2e4_def d2d4_def e7e5_def d7d5_def g1f3_def initial_board_def
  first_response_def second_response_def scripted_def idle_engine_def empty_info_def
  blank_node_def two_move_game_def no_rules_def d4_judgment_def d5_judgment_def

lemmas text_defs = eval_absolute_def format_2f_def truediv_def fneg_def str_nat.simps
  digit_char_def

lemmas tree_defs = add_annotation_def add_main_variation_def add_variation_def variation_def
  demote_def update_node_def slice_to_def key_def ebind_def Let_def

section \<open>Evaluation normalizer: properties\<close>

text \<open>
  Claim C1, as the code has it. For a mate score with \<open>m \<ge> 1\<close> the normalizer returns
  \<open>sign(m) * (10000 - |m|)\<close>, for \<open>m = 0\<close> (the side to move is mated) it returns
  \<open>-10000\<close>, and for a centipawn score \<open>cp\<close> it returns \<open>cp\<close> unchanged. Every mate
  score has a value; that value exceeds in magnitude every centipawn value \<open>c\<close> with
  \<open>|c| < 10000 - |m|\<close>, and its distance from the dominant bound of its sign is \<open>|m|\<close>,
  so that of two mates of the same sign the shorter one lies closer to the bound.
\<close>

theorem eval_numeric_scale:
  assumes "info_score ih 1 = Some s"
  shows "(mate s = Some m \<and> 1 \<le> m \<longrightarrow> eval_numeric ih = Inr (sgn m * (10000 - \<bar>m\<bar>)))
     \<and> (mate s = Some 0 \<longrightarrow> eval_numeric ih = Inr (- 10000))
     \<and> (mate s = None \<and> cp s = Some c \<longrightarrow> eval_numeric ih = Inr c)
     \<and> (mate s = Some m \<longrightarrow>
          (\<exists>v. eval_numeric ih = Inr v
             \<and> (\<forall>c. \<bar>c\<bar> < 10000 - \<bar>m\<bar> \<longrightarrow> \<bar>c\<bar> < \<bar>v\<bar>)
             \<and> \<bar>dominant_bound m - v\<bar> = \<bar>m\<bar>))"
  using assms by (auto simp: eval_numeric_def max_score_def dominant_bound_def)

theorem eval_numeric_scale_witness:
  "eval_numeric (mate_score 3) = Inr 9997
   \<and> eval_numeric (mate_score 0) = Inr (- 10000)
   \<and> eval_numeric (cp_score 35) = Inr 35
   \<and> (\<exists>v. eval_numeric (mate_score (- 3)) = Inr v \<and> \<bar>35\<bar> < \<bar>v\<bar> \<and> \<bar>- 10000 - v\<bar> = 3)"
proof -
  have m3: "info_score (mate_score 3) 1 = Some \<lparr>cp = None, mate = Some 3\<rparr>"
    and m0: "info_score (mate_score 0) 1 = Some \<lparr>cp = None, mate = Some 0\<rparr>"
    and c35: "info_score (cp_score 35) 1 = Some \<lparr>cp = Some 35, mate = None\<rparr>"
    and n3: "info_score (mate_score (- 3)) 1 = Some \<lparr>cp = None, mate = Some (- 3)\<rparr>"
    by (simp_all add: mate_score_def cp_score_def)
  from eval_numeric_scale [OF m3, of 3 0]
  have "eval_numeric (mate_score 3) = Inr 9997" by simp
  moreover from eval_numeric_scale [OF m0, of 0 0]
  have "eval_numeric (mate_score 0) = Inr (- 10000)" by simp
  moreover from eval_numeric_scale [OF c35, of 0 35]
  have "eval_numeric (cp_score 35) = Inr 35" by simp
  moreover from eval_numeric_scale [OF n3, of "- 3" 0]
  have "\<exists>v. eval_numeric (mate_score (- 3)) = Inr v \<and> \<bar>35\<bar> < \<bar>v\<bar> \<and> \<bar>- 10000 - v\<bar> = 3"
    by (auto simp: dominant_bound_def)
  ultimately show ?thesis by blast
qed

text \<open>
  The formula \<open>sign(m) * (10000 - |m|)\<close> is not what the normalizer returns for a mate
  against the side to move: for \<open>m = -3\<close> it returns \<open>-10003\<close>, not \<open>-9997\<close>, and for
  \<open>m = 0\<close> it returns \<open>-10000\<close>, not \<open>0\<close>.
\<close>

theorem eval_numeric_negative_mate:
  "eval_numeric (mate_score (- 3)) = Inr (- 10003)
   \<and> eval_numeric (mate_score (- 3)) \<noteq> Inr (sgn (- 3) * (10000 - \<bar>- 3\<bar>))
   \<and> eval_numeric (mate_score 0) = Inr (- 10000)
   \<and> eval_numeric (mate_score 0) \<noteq> Inr (sgn 0 * (10000 - \<bar>0\<bar>))"
  by (simp add: eval_numeric_def mate_score_def max_score_def)

text \<open>
  Claim C8. With neither a mate score nor a centipawn score in the engine's response,
  \<open>eval_numeric\<close> returns no number: it raises UnboundLocalError. The error is not
  caught: \<open>judge_move\<close> ends with it when the engine's response to its first search has
  neither score, and so does the step of the walker that called \<open>judge_move\<close>.
\<close>

theorem eval_numeric_no_score:
  assumes "mate s = None" and "cp s = None"
  shows "(info_score ih 1 = Some s \<longrightarrow> eval_numeric ih = Inl UnboundLocalError)
     \<and> (r_score (snd (search (process engine) board depth)) 1 = Some s \<longrightarrow>
          judge_move search board played_move engine ih0 depth = Inl UnboundLocalError)
     \<and> (r_score (snd (search (process engine) board depth)) 1 = Some s
          \<and> parent (nodes st node) = Some prev_node \<and> board_of st prev_node = Inr board
          \<and> played st node = Inr played_move \<longrightarrow>
          walk_step search depth st node engine ih0 = Inl UnboundLocalError)"
proof -
  have judge: "judge_move search board played_move engine ih0 depth = Inl UnboundLocalError"
    if "r_score (snd (search (process engine) board depth)) 1 = Some s"
    using that assms
    by (cases "search (process engine) board depth")
      (simp add: judge_move_def position_def go_def eval_numeric_def ebind_def Let_def)
  show ?thesis using assms judge
    by (simp add: eval_numeric_def walk_step_def ebind_def)
qed

theorem eval_numeric_no_score_witness:
  "eval_numeric no_score = Inl UnboundLocalError
   \<and> judge_move mute initial_board d2d4 idle_engine empty_info 12 = Inl UnboundLocalError
   \<and> walk_step mute 12 two_move_game 1 idle_engine empty_info = Inl UnboundLocalError"
proof -
  have none: "mate \<lparr>cp = None, mate = None\<rparr> = None" "cp \<lparr>cp = None, mate = None\<rparr> = None"
    by simp_all
  have "info_score no_score 1 = Some \<lparr>cp = None, mate = None\<rparr>"
    and "r_score (snd (mute (process idle_engine) initial_board 12)) 1
      = Some \<lparr>cp = None, mate = None\<rparr>"
    and "parent (nodes two_move_game 1) = Some 0"
    and "board_of two_move_game 0 = Inr initial_board"
    and "played two_move_game 1 = Inr d2d4"
    by (simp_all add: no_score_def mute_def two_move_game_def blank_node_def played_def
        board_of_def recursion_limit_def board_upto.simps)
  with eval_numeric_no_score [OF none, where ih = no_score and search = mute
      and engine = idle_engine and board = initial_board and depth = 12
      and played_move = d2d4 and ih0 = empty_info and st = two_move_game and node = 1
      and prev_node = 0]
  show ?thesis by simp
qed

text \<open>
  Claim C6, at a mate score. For a mate in \<open>m\<close> the renderer \<open>eval_human\<close> returns the
  pair of the text "Mate in " and the signed \<open>m\<close>, not the text "Mate in |m|"; for a
  centipawn score it returns the decimal text of \<open>cp / 100\<close>.
\<close>

theorem eval_human_mate_pair:
  "eval_human (mate_score (- 3)) = Inr (Pair_of ''Mate in '' (- 3))
   \<and> eval_human (mate_score (- 3)) \<noteq> Inr (Text ''Mate in 3'')
   \<and> eval_human (cp_score 35) = Inr (Text ''0.35'')"
  by (simp add: eval_human_def mate_score_def cp_score_def str_float_def text_defs)

section \<open>Quality classifier: properties\<close>

text \<open>
  Claim C4. When no override applies (the played evaluation is at most 800 and the best
  evaluation at least -800), a delta of -301 is a blunder, -300 a mistake and not a
  blunder, -150 a dubious move and not a mistake, and -75 gets no glyph.
\<close>

theorem get_nags_boundaries:
  assumes "\<not> playedeval j > 800" and "\<not> besteval j < - 800"
  shows "(playedeval j - besteval j = - 301 \<longrightarrow> get_nags j = [NAG_BLUNDER])
     \<and> (playedeval j - besteval j = - 300 \<longrightarrow>
          get_nags j = [NAG_MISTAKE] \<and> get_nags j \<noteq> [NAG_BLUNDER])
     \<and> (playedeval j - besteval j = - 150 \<longrightarrow>
          get_nags j = [NAG_DUBIOUS_MOVE] \<and> get_nags j \<noteq> [NAG_MISTAKE])
     \<and> (playedeval j - besteval j = - 75 \<longrightarrow>
          get_nags j = [] \<and> get_nags j \<noteq> [NAG_DUBIOUS_MOVE])"
  using assms
  by (simp add: get_nags_def NAG_BLUNDER_def NAG_MISTAKE_def NAG_DUBIOUS_MOVE_def)

theorem get_nags_boundaries_witness:
  "get_nags (judged (- 301) 0) = [NAG_BLUNDER] \<and> get_nags (judged (- 300) 0) = [NAG_MISTAKE]
   \<and> get_nags (judged (- 150) 0) = [NAG_DUBIOUS_MOVE] \<and> get_nags (judged (- 75) 0) = []"
  using get_nags_boundaries [of "judged (- 301) 0"] get_nags_boundaries [of "judged (- 300) 0"]
    get_nags_boundaries [of "judged (- 150) 0"] get_nags_boundaries [of "judged (- 75) 0"]
  by (simp add: judged_def)

text \<open>
  Claim C5. A played evaluation above 800 or a best evaluation below -800 leaves no
  glyph, whatever the delta; so does a delta of -500 with a played evaluation of 900.
\<close>

theorem get_nags_override:
  assumes "playedeval j > 800 \<or> besteval j < - 800"
  shows "get_nags j = []"
  using assms by (auto simp: get_nags_def Let_def)

theorem get_nags_override_witness:
  "playedeval (judged 900 1400) - besteval (judged 900 1400) = - 500
   \<and> get_nags (judged 900 1400) = [] \<and> get_nags (judged (- 1400) (- 900)) = []"
  using get_nags_override [of "judged 900 1400"] get_nags_override [of "judged (- 1400) (- 900)"]
  by (simp add: judged_def)

section \<open>Move judge: properties\<close>

lemma pop_push: "pop (push b m) = Inr (m, b)"
  by (simp add: pop_def push_def)

text \<open>
  The two runs of the judge on the initial position with the scripted engine: the
  played move is the engine's best move (1. e4), or another move (1. d4).
\<close>

lemma judge_best_move:
  "\<exists>e i. judge_move scripted initial_board e2e4 idle_engine empty_info 12 =
       Inr (\<lparr>bestmove = Some e2e4, besteval = 35, pv = [e2e4, e7e5, g1f3],
             bestcomment = Some ''0.35'', playedeval = 35,
             playedcomment = Some ''-0.35''\<rparr>, initial_board, e, i)
     \<and> sent e = [Position initial_board, Go 12]
     \<and> info_score i 1 = Some \<lparr>cp = Some 35, mate = None\<rparr>"
  by (simp add: judge_move_def position_def go_def eval_numeric_def key_def lookup_def
      ebind_def example_defs text_defs Let_def)

lemma judge_other_move:
  "\<exists>e i. judge_move scripted initial_board d2d4 idle_engine empty_info 12 =
       Inr (d4_judgment, initial_board, e, i)
     \<and> sent e = [Position initial_board, Go 12, Position (push initial_board d2d4), Go 12]"
  by (simp add: judge_move_def position_def go_def eval_numeric_def key_def lookup_def
      ebind_def example_defs text_defs Let_def push_def pop_def)

lemma judge_move_reported:
  assumes "judge_move search board played_move engine ih depth = Inr (j, board', engine', ih')"
  shows "bestmove j = r_bestmove (snd (search (process engine) board depth))"
  using assms
  by (auto simp: judge_move_def Let_def ebind_def lookup_def key_def position_def go_def
      split: prod.splits sum.splits option.splits if_splits)

lemma judge_move_best_played:
  assumes "judge_move search board played_move engine ih depth = Inr (j, board', engine', ih')"
    and "bestmove j = Some played_move"
  shows "sent engine' = sent engine @ [Position board, Go depth] \<and> playedeval j = besteval j
     \<and> ih' = ih\<lparr>info_score := r_score (snd (search (process engine) board depth)),
                 info_pv := r_pv (snd (search (process engine) board depth))\<rparr>"
  using assms
  by (auto simp: judge_move_def Let_def ebind_def lookup_def key_def position_def go_def
      split: prod.splits sum.splits option.splits if_splits)

lemma judge_reply:
  "\<exists>e i. judge_move scripted (push initial_board d2d4) d7d5 idle_engine empty_info 12 =
       Inr (d5_judgment, push initial_board d2d4, e, i)"
  by (simp add: judge_move_def position_def go_def eval_numeric_def key_def lookup_def
      ebind_def example_defs text_defs Let_def push_def pop_def)

text \<open>
  Claim C2. Let the best move the engine reports for the position be the played move.
  When \<open>judge_move\<close> returns, it has sent the engine one position and one search and
  nothing more, the best move of the judgment is the played move, and the played
  evaluation of the judgment is its best evaluation.
\<close>

theorem judge_move_one_search:
  assumes "judge_move search board played_move engine ih depth = Inr (j, board', engine', ih')"
    and "r_bestmove (snd (search (process engine) board depth)) = Some played_move"
  shows "sent engine' = sent engine @ [Position board, Go depth]
     \<and> searches engine' = searches engine + 1
     \<and> bestmove j = Some played_move
     \<and> playedeval j = besteval j"
proof -
  have best: "bestmove j = Some played_move"
    using judge_move_reported [OF assms(1)] assms(2) by simp
  from judge_move_best_played [OF assms(1) best]
  have "sent engine' = sent engine @ [Position board, Go depth]"
    and "playedeval j = besteval j"
    by simp_all
  then show ?thesis using best by (simp add: searches_def)
qed

theorem judge_move_one_search_witness:
  "\<exists>j b e i. judge_move scripted initial_board e2e4 idle_engine empty_info 12 = Inr (j, b, e, i)
     \<and> sent e = [Position initial_board, Go 12]
     \<and> searches e = 1 \<and> bestmove j = Some e2e4 \<and> playedeval j = besteval j"
proof -
  from judge_best_move obtain e i where
    run: "judge_move scripted initial_board e2e4 idle_engine empty_info 12 =
       Inr (\<lparr>bestmove = Some e2e4, besteval = 35, pv = [e2e4, e7e5, g1f3],
             bestcomment = Some ''0.35'', playedeval = 35,
             playedcomment = Some ''-0.35''\<rparr>, initial_board, e, i)"
    by blast
  have best: "r_bestmove (snd (scripted (process idle_engine) initial_board 12)) = Some e2e4"
    by (simp add: example_defs)
  from judge_move_one_search [OF run best]
  have "sent e = [Position initial_board, Go 12] \<and> searches e = 1"
    by (simp add: searches_def idle_engine_def)
  with run show ?thesis by simp
qed

text \<open>
  Claim C7. Whenever \<open>judge_move\<close> returns, the board it hands back is the board it was
  given: the played move pushed for the second search has been popped again.
\<close>

theorem judge_move_board_unchanged:
  assumes "judge_move search board played_move engine ih depth = Inr (j, board', engine', ih')"
  shows "board' = board"
  using assms
  by (auto simp: judge_move_def Let_def ebind_def lookup_def key_def pop_push
      split: prod.splits sum.splits option.splits if_splits)

theorem judge_move_board_unchanged_witness:
  "\<exists>j b e i. judge_move scripted initial_board d2d4 idle_engine empty_info 12 = Inr (j, b, e, i)
     \<and> searches e = 2 \<and> b = initial_board"
proof -
  from judge_other_move obtain e i where
    run: "judge_move scripted initial_board d2d4 idle_engine empty_info 12 =
       Inr (d4_judgment, initial_board, e, i)"
    and cmds: "sent e = [Position initial_board, Go 12, Position (push initial_board d2d4), Go 12]"
    by blast
  from judge_move_board_unchanged [OF run] cmds run show ?thesis
    by (simp add: searches_def)
qed

text \<open>
  Claim C10. Let the engine report, for the position, the played move as best move and
  a centipawn score \<open>c\<close> (no mate). When \<open>judge_move\<close> returns, the comment of the played
  move is \<open>eval_absolute(c / -100, turn)\<close> and the comment of the best move is
  \<open>eval_absolute(c / 100, turn)\<close>; the first quotient is the negation of the second,
  while the played and the best evaluation are both \<open>c\<close>.
\<close>

theorem judge_move_played_comment:
  assumes "judge_move search board played_move engine ih depth = Inr (j, board', engine', ih')"
    and "search (process engine) board depth = (p, r)"
    and "r_bestmove r = Some played_move"
    and "r_score r 1 = Some s" and "mate s = None" and "cp s = Some c"
  shows "playedcomment j = Some (eval_absolute (truediv c (- 100)) (turn board))
     \<and> bestcomment j = Some (eval_absolute (truediv c 100) (turn board))
     \<and> truediv c (- 100) = fneg (truediv c 100)
     \<and> playedeval j = besteval j \<and> besteval j = c"
  using assms
  by (auto simp: judge_move_def Let_def ebind_def lookup_def key_def eval_numeric_def
      truediv_def fneg_def go_def position_def
      split: prod.splits sum.splits option.splits if_splits)

theorem judge_move_played_comment_witness:
  "\<exists>j b e i. judge_move scripted initial_board e2e4 idle_engine empty_info 12 = Inr (j, b, e, i)
     \<and> playedcomment j = Some ''-0.35'' \<and> bestcomment j = Some ''0.35''
     \<and> playedeval j = 35 \<and> besteval j = 35"
proof -
  from judge_best_move obtain e i where
    run: "judge_move scripted initial_board e2e4 idle_engine empty_info 12 =
       Inr (\<lparr>bestmove = Some e2e4, besteval = 35, pv = [e2e4, e7e5, g1f3],
             bestcomment = Some ''0.35'', playedeval = 35,
             playedcomment = Some ''-0.35''\<rparr>, initial_board, e, i)"
    by blast
  have script: "scripted (process idle_engine) initial_board 12 = (1, first_response)"
    by (simp add: scripted_def idle_engine_def initial_board_def)
  have best: "r_bestmove first_response = Some e2e4"
    and score: "r_score first_response 1 = Some \<lparr>cp = Some 35, mate = None\<rparr>"
    and no_mate: "mate \<lparr>cp = Some 35, mate = None\<rparr> = None"
    and centipawns: "cp \<lparr>cp = Some 35, mate = None\<rparr> = Some 35"
    by (simp_all add: first_response_def)
  note judge_move_played_comment [OF run script best score no_mate centipawns]
  then have "playedcomment
          \<lparr>bestmove = Some e2e4, besteval = 35, pv = [e2e4, e7e5, g1f3],
             bestcomment = Some ''0.35'', playedeval = 35,
             playedcomment = Some ''-0.35''\<rparr> =
        Some (eval_absolute (truediv 35 (- 100)) (turn initial_board))"
    by (rule conjunct1)
  with run show ?thesis by (simp add: text_defs initial_board_def)
qed

section \<open>Annotation inserter: properties\<close>

lemma length_inserted: "length (inserted prev ms) \<le> length ms"
  by (induction ms arbitrary: prev) (auto simp: le_SucI)

lemma length_slice_to: "0 \<le> n \<Longrightarrow> length (slice_to xs n) \<le> nat n"
  by (simp add: slice_to_def)

lemma remove1_fresh: "n \<notin> set vs \<Longrightarrow> remove1 n (vs @ [n]) = vs"
  by (induction vs) auto

subsection \<open>What the tree primitives change\<close>

lemma add_main_variation_next: "next_ref (snd (add_main_variation st p m)) = Suc (next_ref st)"
  by (simp add: add_main_variation_def add_variation_def Let_def update_node_def)

lemma add_main_variation_new:
  "p \<noteq> next_ref st \<Longrightarrow>
   nodes (snd (add_main_variation st p m)) (next_ref st) =
     \<lparr>parent = Some p, move = m, comment = [], nags = [], variations = []\<rparr>"
  by (simp add: add_main_variation_def add_variation_def Let_def update_node_def)

lemma add_main_variation_parent:
  "p \<noteq> next_ref st \<Longrightarrow>
   nodes (snd (add_main_variation st p m)) p =
     (nodes st p)\<lparr>variations :=
        next_ref st # remove1 (next_ref st) (variations (nodes st p) @ [next_ref st])\<rparr>"
  by (simp add: add_main_variation_def add_variation_def Let_def update_node_def)

lemma add_main_variation_other:
  "r \<noteq> p \<Longrightarrow> r \<noteq> next_ref st \<Longrightarrow> nodes (snd (add_main_variation st p m)) r = nodes st r"
  by (simp add: add_main_variation_def add_variation_def Let_def update_node_def)

lemma variation_new:
  "p \<noteq> next_ref st \<Longrightarrow> variation (snd (add_main_variation st p m)) p m = Inr (next_ref st)"
  by (simp add: variation_def add_main_variation_parent add_main_variation_new)

lemma update_comment_keeps:
  "variations (nodes (update_node st r (\<lambda>nd. nd\<lparr>comment := c\<rparr>)) q) = variations (nodes st q)"
  "move (nodes (update_node st r (\<lambda>nd. nd\<lparr>comment := c\<rparr>)) q) = move (nodes st q)"
  "next_ref (update_node st r f) = next_ref st"
  by (cases "q = r"; simp add: update_node_def)+

lemma update_nags_keeps:
  "variations (nodes (update_node st r (\<lambda>nd. nd\<lparr>nags := g\<rparr>)) q) = variations (nodes st q)"
  "move (nodes (update_node st r (\<lambda>nd. nd\<lparr>nags := g\<rparr>)) q) = move (nodes st q)"
  by (cases "q = r"; simp add: update_node_def)+

lemma update_variations_keeps:
  "move (nodes (update_node st r (\<lambda>nd. nd\<lparr>variations := vs\<rparr>)) q) = move (nodes st q)"
  "variations (nodes (update_node st r (\<lambda>nd. nd\<lparr>variations := vs\<rparr>)) r) = vs"
  "q \<noteq> r \<Longrightarrow>
   variations (nodes (update_node st r (\<lambda>nd. nd\<lparr>variations := vs\<rparr>)) q) = variations (nodes st q)"
  by (cases "q = r"; simp add: update_node_def)+

lemma demote_head:
  assumes "variations (nodes st p) = n # x # rest" and "move (nodes st n) = m"
  shows "demote st p m = Inr (update_node st p (\<lambda>nd. nd\<lparr>variations := x # n # rest\<rparr>))"
  using assms by (simp add: demote_def variation_def ebind_def)

lemma line_refs_frame:
  "\<forall>q \<in> set (line_refs k st r). variations (nodes st' q) = variations (nodes st q) \<Longrightarrow>
   line_refs k st' r = line_refs k st r"
proof (induction k arbitrary: r)
  case 0
  then show ?case by simp
next
  case (Suc k)
  from Suc.prems have here: "variations (nodes st' r) = variations (nodes st r)" by simp
  show ?case
  proof (cases "variations (nodes st r)")
    case Nil
    with here show ?thesis by simp
  next
    case (Cons v vs)
    with Suc.prems have "\<forall>q \<in> set (line_refs k st v). variations (nodes st' q) = variations (nodes st q)"
      by simp
    from Suc.IH [OF this] Cons here show ?thesis by simp
  qed
qed

subsection \<open>The loop over the principal variation\<close>

text \<open>
  Started at a leaf \<open>v\<close>, the loop allocates one node for each move of
  \<open>inserted (move v) ms\<close>, in order, and chains them below \<open>v\<close> as main line; nothing else
  that was allocated before changes.
\<close>

lemma add_pv_effect:
  assumes "v < next_ref st" and "variations (nodes st v) = []"
  shows "\<exists>st' v'. add_pv st v ms = Inr (st', v')
     \<and> next_ref st' = next_ref st + length (inserted (move (nodes st v)) ms)
     \<and> (\<forall>k > length (inserted (move (nodes st v)) ms).
          line_refs k st' v = v # [next_ref st..<next_ref st'])
     \<and> map (\<lambda>q. move (nodes st' q)) [next_ref st..<next_ref st']
          = map Some (inserted (move (nodes st v)) ms)
     \<and> v' = last (v # [next_ref st..<next_ref st'])
     \<and> (\<forall>r. r < next_ref st \<and> r \<noteq> v \<longrightarrow> nodes st' r = nodes st r)
     \<and> move (nodes st' v) = move (nodes st v)"
  using assms
proof (induction ms arbitrary: st v)
  case Nil
  have "line_refs k st v = [v]" if "0 < k" for k
    using that Nil.prems(2) by (cases k) simp_all
  then show ?case by simp
next
  case (Cons m ms)
  show ?case
  proof (cases "move (nodes st v) = Some m")
    case True
    with Cons.IH [OF Cons.prems] show ?thesis by simp
  next
    case False
    let ?n = "next_ref st"
    let ?st1 = "snd (add_main_variation st v (Some m))"
    let ?ins = "inserted (Some m) ms"
    have vn: "v \<noteq> ?n" using Cons.prems by simp
    have var: "variation ?st1 v (Some m) = Inr ?n" by (rule variation_new [OF vn])
    have n1: "next_ref ?st1 = Suc ?n" by (rule add_main_variation_next)
    have new: "nodes ?st1 ?n =
        \<lparr>parent = Some v, move = Some m, comment = [], nags = [], variations = []\<rparr>"
      by (rule add_main_variation_new [OF vn])
    have below: "variations (nodes ?st1 v) = [?n]" and mv1: "move (nodes ?st1 v) = move (nodes st v)"
      using Cons.prems(2) by (simp_all add: add_main_variation_parent [OF vn])
    have lt: "?n < next_ref ?st1" by (simp add: n1)
    have leaf: "variations (nodes ?st1 ?n) = []" by (simp add: new)
    have mvn: "move (nodes ?st1 ?n) = Some m" by (simp add: new)
    note Cons.IH [OF lt leaf, unfolded n1 mvn]
    then obtain st' v' where
      run: "add_pv ?st1 ?n ms = Inr (st', v')"
      and nx: "next_ref st' = Suc ?n + length ?ins"
      and line: "\<forall>k > length ?ins. line_refs k st' ?n = ?n # [Suc ?n..<next_ref st']"
      and moves: "map (\<lambda>q. move (nodes st' q)) [Suc ?n..<next_ref st'] = map Some ?ins"
      and v': "v' = last (?n # [Suc ?n..<next_ref st'])"
      and frame: "\<forall>r. r < Suc ?n \<and> r \<noteq> ?n \<longrightarrow> nodes st' r = nodes ?st1 r"
      and mn: "move (nodes st' ?n) = Some m"
      by blast
    have upt: "[?n..<next_ref st'] = ?n # [Suc ?n..<next_ref st']"
      by (rule upt_conv_Cons) (simp add: nx)
    have same_v: "nodes st' v = nodes ?st1 v" using frame Cons.prems(1) by simp
    have ins: "inserted (move (nodes st v)) (m # ms) = m # ?ins" using False by simp
    have "add_pv st v (m # ms) = Inr (st', v')" using False var run by simp
    moreover have "next_ref st' = ?n + length (inserted (move (nodes st v)) (m # ms))"
      using nx ins by simp
    moreover have "\<forall>k > length (inserted (move (nodes st v)) (m # ms)).
        line_refs k st' v = v # [?n..<next_ref st']"
    proof (intro allI impI)
      fix k assume "length (inserted (move (nodes st v)) (m # ms)) < k"
      then obtain k' where k: "k = Suc k'" and "length ?ins < k'"
        using ins by (cases k) auto
      with line have "line_refs k' st' ?n = ?n # [Suc ?n..<next_ref st']" by simp
      then show "line_refs k st' v = v # [?n..<next_ref st']"
        using k same_v below upt by simp
    qed
    moreover have "map (\<lambda>q. move (nodes st' q)) [?n..<next_ref st']
        = map Some (inserted (move (nodes st v)) (m # ms))"
      using moves mn upt ins by simp
    moreover have "v' = last (v # [?n..<next_ref st'])" using v' upt by simp
    moreover have "\<forall>r. r < ?n \<and> r \<noteq> v \<longrightarrow> nodes st' r = nodes st r"
      using frame by (simp add: add_main_variation_other)
    moreover have "move (nodes st' v) = move (nodes st v)" using same_v mv1 by simp
    ultimately show ?thesis by blast
  qed
qed

subsection \<open>The inserted branch and its demotion\<close>

text \<open>
  Claim C3. Let the node be the main child of its parent, the parent and its children be
  allocated, the search depth be non-negative and the judgment carry both comments.
  Then \<open>add_annotation\<close> returns; the parent's variations are the node first, the new
  branch second and the others after it, and the node still has its move. The new
  branch is one main line of new nodes: the best move, followed by those moves of the
  first \<open>searchdepth // 2\<close> moves of the principal variation that do not repeat the
  move added just before; these are at most \<open>searchdepth // 2\<close> moves.
\<close>

theorem add_annotation_branch:
  assumes par: "parent (nodes st node) = Some p"
    and alloc: "p < next_ref st"
    and kids: "variations (nodes st p) = node # rest"
    and kids_alloc: "\<forall>r \<in> set (node # rest). r < next_ref st"
    and depth: "0 \<le> searchdepth"
    and bc: "bestcomment j = Some b" and pc: "playedcomment j = Some c"
  shows "\<exists>st'. add_annotation st node j searchdepth = Inr st'
     \<and> variations (nodes st' p) = node # next_ref st # rest
     \<and> move (nodes st' node) = move (nodes st node)
     \<and> next_ref st' = Suc (next_ref st) + length (pv_moves j searchdepth)
     \<and> (\<forall>k > length (pv_moves j searchdepth).
          line_refs k st' (next_ref st) = [next_ref st..<next_ref st'])
     \<and> map (\<lambda>q. move (nodes st' q)) [next_ref st..<next_ref st']
          = bestmove j # map Some (pv_moves j searchdepth)
     \<and> length (pv_moves j searchdepth) \<le> nat (searchdepth div 2)"
proof -
  let ?n = "next_ref st"
  let ?ms = "slice_to (pv j) (searchdepth div 2)"
  let ?ins = "pv_moves j searchdepth"
  define st0 where "st0 = (if bestmove j \<noteq> move (nodes st node)
     then update_node st node (\<lambda>nd. nd\<lparr>comment := c\<rparr>) else st)"
  define st1 where "st1 = snd (add_main_variation st0 p (bestmove j))"
  have n0: "next_ref st0 = ?n" and v0: "variations (nodes st0 p) = node # rest"
    and m0: "move (nodes st0 node) = move (nodes st node)"
    using kids by (simp_all add: st0_def update_comment_keeps)
  have pn: "p \<noteq> next_ref st0" using alloc n0 by simp
  have fresh: "?n \<notin> set (node # rest)" using kids_alloc by auto
  have node_lt: "node < ?n" using kids_alloc by simp
  have n1: "next_ref st1 = Suc ?n" by (simp add: st1_def add_main_variation_next n0)
  have v1: "variations (nodes st1 p) = ?n # node # rest"
    using remove1_fresh [OF fresh]
    by (simp add: st1_def add_main_variation_parent [OF pn] n0 v0 del: remove1_append)
  have new: "nodes st1 ?n =
      \<lparr>parent = Some p, move = bestmove j, comment = [], nags = [], variations = []\<rparr>"
    using add_main_variation_new [OF pn, of "bestmove j"] by (simp add: st1_def n0)
  have m1: "move (nodes st1 ?n) = bestmove j" and leaf: "variations (nodes st1 ?n) = []"
    by (simp_all add: new)
  have mnode1: "move (nodes st1 node) = move (nodes st node)"
  proof (cases "node = p")
    case True
    then show ?thesis using m0 by (simp add: st1_def add_main_variation_parent [OF pn])
  next
    case False
    then show ?thesis using m0 node_lt n0
      by (simp add: st1_def add_main_variation_other)
  qed
  have var1: "variation st1 p (bestmove j) = Inr ?n"
    using variation_new [OF pn, of "bestmove j"] by (simp add: st1_def n0)
  have lt: "?n < next_ref st1" by (simp add: n1)
  note add_pv_effect [OF lt leaf, of ?ms, unfolded n1 m1, folded pv_moves_def]
  then obtain st2 v' where
    run: "add_pv st1 ?n ?ms = Inr (st2, v')"
    and n2: "next_ref st2 = Suc ?n + length ?ins"
    and line2: "\<forall>k > length ?ins. line_refs k st2 ?n = ?n # [Suc ?n..<next_ref st2]"
    and moves2: "map (\<lambda>q. move (nodes st2 q)) [Suc ?n..<next_ref st2] = map Some ?ins"
    and frame: "\<forall>r. r < Suc ?n \<and> r \<noteq> ?n \<longrightarrow> nodes st2 r = nodes st1 r"
    and m2: "move (nodes st2 ?n) = bestmove j"
    by blast
  have upt: "[?n..<next_ref st2] = ?n # [Suc ?n..<next_ref st2]"
    by (rule upt_conv_Cons) (simp add: n2)
  have p2: "nodes st2 p = nodes st1 p" using frame alloc by simp
  have node2: "nodes st2 node = nodes st1 node" using frame node_lt by simp
  define st3 where "st3 = update_node st2 v' (\<lambda>nd. nd\<lparr>comment := b\<rparr>)"
  have v3: "variations (nodes st3 p) = ?n # node # rest"
    and m3: "move (nodes st3 ?n) = bestmove j"
    using v1 p2 m2 by (simp_all add: st3_def update_comment_keeps)
  define st4 where "st4 = update_node st3 p (\<lambda>nd. nd\<lparr>variations := node # ?n # rest\<rparr>)"
  have dem: "demote st3 p (bestmove j) = Inr st4"
    unfolding st4_def by (rule demote_head [OF v3 m3])
  define st5 where "st5 = update_node st4 node (\<lambda>nd. nd\<lparr>nags := get_nags j\<rparr>)"
  have res: "add_annotation st node j searchdepth = Inr st5"
  proof -
    have s0: "(if bestmove j \<noteq> move (nodes st node)
               then ebind (key (playedcomment j)) (\<lambda>c.
                    Inr (update_node st node (\<lambda>nd. nd\<lparr>comment := c\<rparr>)))
               else Inr st) = Inr st0"
      by (simp add: st0_def pc key_def ebind_def)
    show ?thesis
      unfolding add_annotation_def Let_def s0
      using var1 run dem
      by (simp add: ebind_def par bc key_def st1_def [symmetric] st3_def [symmetric]
          st5_def [symmetric])
  qed
  have moves_same: "move (nodes st5 q) = move (nodes st2 q)" for q
    by (simp add: st5_def st4_def st3_def update_nags_keeps update_variations_keeps
        update_comment_keeps)
  have vars_same: "variations (nodes st5 q) = variations (nodes st2 q)" if "q \<noteq> p" for q
    using that
    by (simp add: st5_def st4_def st3_def update_nags_keeps update_variations_keeps
        update_comment_keeps)
  have n5: "next_ref st5 = next_ref st2"
    by (simp add: st5_def st4_def st3_def update_comment_keeps)
  have r1: "variations (nodes st5 p) = node # ?n # rest"
    by (simp add: st5_def st4_def update_nags_keeps update_variations_keeps)
  have r2: "move (nodes st5 node) = move (nodes st node)"
    using moves_same node2 mnode1 by simp
  have r3: "next_ref st5 = Suc ?n + length ?ins" using n5 n2 by simp
  have r4: "\<forall>k > length ?ins. line_refs k st5 ?n = [?n..<next_ref st5]"
  proof (intro allI impI)
    fix k assume "length ?ins < k"
    with line2 upt have l2: "line_refs k st2 ?n = [?n..<next_ref st2]" by simp
    have "\<forall>q \<in> set (line_refs k st2 ?n). variations (nodes st5 q) = variations (nodes st2 q)"
    proof
      fix q assume "q \<in> set (line_refs k st2 ?n)"
      then have "?n \<le> q" by (simp add: l2)
      then have "q \<noteq> p" using alloc by simp
      then show "variations (nodes st5 q) = variations (nodes st2 q)" by (rule vars_same)
    qed
    from line_refs_frame [OF this] l2 n5 show "line_refs k st5 ?n = [?n..<next_ref st5]"
      by simp
  qed
  have r5: "map (\<lambda>q. move (nodes st5 q)) [?n..<next_ref st5] = bestmove j # map Some ?ins"
    using moves2 m2 by (simp add: n5 upt moves_same)
  have r6: "length ?ins \<le> nat (searchdepth div 2)"
  proof -
    have "0 \<le> searchdepth div 2" using depth by simp
    from length_slice_to [OF this] length_inserted [of "bestmove j" ?ms]
    show ?thesis unfolding pv_moves_def by (rule order_trans [rotated])
  qed
  show ?thesis
    by (intro exI [of _ st5] conjI; fact res r1 r2 r3 r4 r5 r6)
qed

text \<open>Whenever \<open>add_annotation\<close> returns it has added at least the node of the best move.\<close>

lemma add_pv_next_mono:
  "add_pv st v ms = Inr (st', v') \<Longrightarrow> next_ref st \<le> next_ref st'"
proof (induction ms arbitrary: st v)
  case Nil
  then show ?case by simp
next
  case (Cons m ms)
  show ?case
  proof (cases "move (nodes st v) = Some m")
    case True
    with Cons.prems have "add_pv st v ms = Inr (st', v')" by simp
    from Cons.IH [OF this] show ?thesis .
  next
    case False
    with Cons.prems obtain w where
      "add_pv (snd (add_main_variation st v (Some m))) w ms = Inr (st', v')"
      by (auto split: sum.splits)
    from Cons.IH [OF this] show ?thesis by (simp add: add_main_variation_next)
  qed
qed

lemma demote_next: "demote st p m = Inr st' \<Longrightarrow> next_ref st' = next_ref st"
  by (auto simp: demote_def ebind_def Let_def update_comment_keeps split: sum.splits if_splits)

lemma add_annotation_allocates:
  assumes "add_annotation st node j searchdepth = Inr st'"
  shows "next_ref st < next_ref st'"
  using assms
  by (auto simp: add_annotation_def Let_def ebind_def key_def update_comment_keeps
      add_main_variation_next
      split: sum.splits option.splits if_splits prod.splits
      dest!: add_pv_next_mono demote_next)

text \<open>
  On the game 1. d4 d5, with the judgment of 1. d4 (best move 1. e4, principal variation
  1. e4 e5 2. Nf3) and depth 4: the branch is 1. e4 e5, two new nodes, placed second.
\<close>

theorem add_annotation_branch_witness:
  "\<exists>st'. add_annotation two_move_game 1 d4_judgment 4 = Inr st'
     \<and> variations (nodes st' 0) = [1, 3]
     \<and> move (nodes st' 1) = Some d2d4
     \<and> next_ref st' = 5
     \<and> line_refs 2 st' 3 = [3, 4] \<and> line_refs 3 st' 3 = [3, 4]
     \<and> map (\<lambda>q. move (nodes st' q)) [3, 4] = [Some e2e4, Some e7e5]"
proof -
  have par: "parent (nodes two_move_game 1) = Some 0"
    and alloc: "0 < next_ref two_move_game"
    and kids: "variations (nodes two_move_game 0) = 1 # []"
    and kids_alloc: "\<forall>r \<in> set (1 # []). r < next_ref two_move_game"
    and depth: "0 \<le> (4 :: int)"
    and bc: "bestcomment d4_judgment = Some ''0.35''"
    and pc: "playedcomment d4_judgment = Some ''-0.20''"
    and nx: "next_ref two_move_game = 3"
    and mv: "move (nodes two_move_game 1) = Some d2d4"
    and best: "bestmove d4_judgment = Some e2e4"
    by (simp_all add: two_move_game_def blank_node_def d4_judgment_def)
  have ins: "pv_moves d4_judgment 4 = [e7e5]"
    by (simp add: pv_moves_def slice_to_def d4_judgment_def e2e4_def e7e5_def g1f3_def)
  have upt: "[3..<5] = [3, 4 :: nat]"
    by (simp add: upt_conv_Cons)
  from add_annotation_branch [OF par alloc kids kids_alloc depth bc pc]
  obtain st' where
    "add_annotation two_move_game 1 d4_judgment 4 = Inr st'"
    "variations (nodes st' 0) = [1, 3]"
    "move (nodes st' 1) = Some d2d4"
    "next_ref st' = 5"
    "\<forall>k > 1. line_refs k st' 3 = [3..<5]"
    "map (\<lambda>q. move (nodes st' q)) [3..<5] = [Some e2e4, Some e7e5]"
    unfolding nx ins mv best by auto
  then show ?thesis unfolding upt by auto
qed

section \<open>Game walker: properties\<close>

text \<open>
  Claim C9. Let the node have a parent with a board and a move, and let \<open>judge_move\<close>
  return the judgment \<open>j\<close> for it. Where the node's own position is not game over, the
  analysis of the final node is \<open>add_annotation\<close> with \<open>j\<close>, whatever the evaluations in
  \<open>j\<close> are, so that whenever it returns the tree has grown by the inserted branch. The
  step of the backward walk is \<open>add_annotation\<close> with \<open>j\<close> when
  \<open>playedeval - besteval < -50\<close> and leaves the tree as it is otherwise; and the walk
  applies that step to every node it visits before the root.
\<close>

theorem final_node_always_annotated:
  assumes "parent (nodes st node) = Some prev_node"
    and "board_of st prev_node = Inr pb"
    and "played st node = Inr m"
    and "judge_move search pb m engine ih depth = Inr (j, pb', engine', ih')"
  shows "(board_of st node = Inr b \<and> \<not> is_game_over rules b \<longrightarrow>
            analyze_final search rules depth st node engine ih =
              ebind (add_annotation st node j depth) (\<lambda>st'. Inr (st', engine', ih')))
     \<and> (board_of st node = Inr b \<and> \<not> is_game_over rules b
          \<and> analyze_final search rules depth st node engine ih = Inr (grown, e, i) \<longrightarrow>
            next_ref st < next_ref grown)
     \<and> walk_step search depth st node engine ih =
         (if playedeval j - besteval j < - 50
          then ebind (add_annotation st node j depth) (\<lambda>st'. Inr (st', prev_node, engine', ih'))
          else Inr (st, prev_node, engine', ih'))
     \<and> (root st game = Some the_root \<and> node \<noteq> the_root \<longrightarrow>
            walk search depth game st (Some node) engine ih =
              (case walk_step search depth st node engine ih of
                 Inl e \<Rightarrow> Some (Inl e)
               | Inr (st3, up, e3, i3) \<Rightarrow>
                   walk search depth game st3 (Some up) e3 i3))"
proof -
  have final: "analyze_final search rules depth st node engine ih =
      ebind (add_annotation st node j depth) (\<lambda>st'. Inr (st', engine', ih'))"
    if "board_of st node = Inr b" and "\<not> is_game_over rules b"
    using that assms by (simp add: analyze_final_def ebind_def)
  have grows: "next_ref st < next_ref grown"
    if "board_of st node = Inr b" and "\<not> is_game_over rules b"
      and "analyze_final search rules depth st node engine ih = Inr (grown, e, i)"
  proof -
    from final [OF that(1,2)] that(3)
    have "add_annotation st node j depth = Inr grown"
      by (auto simp: ebind_def split: sum.splits)
    then show ?thesis by (rule add_annotation_allocates)
  qed
  have step: "walk_step search depth st node engine ih =
      (if playedeval j - besteval j < - 50
       then ebind (add_annotation st node j depth) (\<lambda>st'. Inr (st', prev_node, engine', ih'))
       else Inr (st, prev_node, engine', ih'))"
    using assms by (simp add: walk_step_def ebind_def needs_annotation_def)
  have loop: "walk search depth game st (Some node) engine ih =
      (case walk_step search depth st node engine ih of
         Inl e \<Rightarrow> Some (Inl e)
       | Inr (st3, up, e3, i3) \<Rightarrow> walk search depth game st3 (Some up) e3 i3)"
    if "root st game = Some the_root" and "node \<noteq> the_root"
    using that by (subst walk.simps) simp
  show ?thesis
    using final grows step loop by (intro conjI impI) auto
qed

text \<open>
  In the game 1. d4 d5 the final move is the engine's best move, so its judgment has no
  loss at all; the final analysis inserts the best-move branch all the same, while the
  step of the walk on the same node leaves the tree alone. The step on 1. d4, which
  loses 55 centipawns, inserts the branch 1. e4 e5 2. Nf3.
\<close>

lemma boards_of_game:
  "board_of two_move_game 0 = Inr initial_board"
  "board_of two_move_game 1 = Inr (push initial_board d2d4)"
  "board_of two_move_game 2 = Inr (push (push initial_board d2d4) d7d5)"
  by (simp_all add: board_of_def recursion_limit_def board_upto.simps two_move_game_def
      blank_node_def)

lemma annotate_d5:
  "\<exists>st'. add_annotation two_move_game 2 d5_judgment 12 = Inr st'
     \<and> next_ref st' = 4 \<and> variations (nodes st' 1) = [2, 3]"
  by (simp add: tree_defs example_defs)

lemma annotate_d4:
  "\<exists>st'. add_annotation two_move_game 1 d4_judgment 12 = Inr st'
     \<and> next_ref st' = 6 \<and> variations (nodes st' 0) = [1, 3]"
  by (simp add: tree_defs example_defs)

theorem final_node_always_annotated_witness:
  "(\<exists>st' e i. analyze_final scripted no_rules 12 two_move_game 2 idle_engine empty_info =
        Inr (st', e, i)
      \<and> next_ref st' = 4 \<and> variations (nodes st' 1) = [2, 3]
      \<and> \<not> needs_annotation d5_judgment
      \<and> walk_step scripted 12 two_move_game 2 idle_engine empty_info =
          Inr (two_move_game, 1, e, i)
      \<and> walk scripted 12 0 two_move_game (Some 2) idle_engine empty_info =
          walk scripted 12 0 two_move_game (Some 1) e i)
   \<and> (\<exists>st' e i. walk_step scripted 12 two_move_game 1 idle_engine empty_info =
        Inr (st', 0, e, i)
      \<and> next_ref st' = 6 \<and> variations (nodes st' 0) = [1, 3])"
proof -
  from judge_reply obtain e2 i2 where
    run2: "judge_move scripted (push initial_board d2d4) d7d5 idle_engine empty_info 12 =
       Inr (d5_judgment, push initial_board d2d4, e2, i2)"
    by blast
  from judge_other_move obtain e1 i1 where
    run1: "judge_move scripted initial_board d2d4 idle_engine empty_info 12 =
       Inr (d4_judgment, initial_board, e1, i1)"
    by blast
  from annotate_d5 obtain st2 where
    a2: "add_annotation two_move_game 2 d5_judgment 12 = Inr st2"
    and s2: "next_ref st2 = 4" "variations (nodes st2 1) = [2, 3]"
    by blast
  from annotate_d4 obtain st1 where
    a1: "add_annotation two_move_game 1 d4_judgment 12 = Inr st1"
    and s1: "next_ref st1 = 6" "variations (nodes st1 0) = [1, 3]"
    by blast
  have par: "parent (nodes two_move_game 2) = Some 1" "parent (nodes two_move_game 1) = Some 0"
    and mv: "played two_move_game 2 = Inr d7d5" "played two_move_game 1 = Inr d2d4"
    and top: "root two_move_game 0 = Some 0"
    by (simp_all add: two_move_game_def blank_node_def played_def root.simps)
  note last = final_node_always_annotated [OF par(1) boards_of_game(2) mv(1) run2,
      where b = "push (push initial_board d2d4) d7d5" and rules = no_rules and game = 0
      and the_root = 0]
  note first = final_node_always_annotated [OF par(2) boards_of_game(1) mv(2) run1,
      where b = initial_board and rules = no_rules and game = 0 and the_root = 0]
  have "analyze_final scripted no_rules 12 two_move_game 2 idle_engine empty_info =
      Inr (st2, e2, i2)"
    using last a2 boards_of_game(3) by (simp add: ebind_def no_rules_def)
  moreover have step2: "walk_step scripted 12 two_move_game 2 idle_engine empty_info =
      Inr (two_move_game, 1, e2, i2)"
    using last by (simp add: d5_judgment_def)
  moreover have "walk scripted 12 0 two_move_game (Some 2) idle_engine empty_info =
      walk scripted 12 0 two_move_game (Some 1) e2 i2"
    using last top step2 by simp
  moreover have "walk_step scripted 12 two_move_game 1 idle_engine empty_info =
      Inr (st1, 0, e1, i1)"
    using first a1 by (simp add: d4_judgment_def ebind_def)
  moreover have "\<not> needs_annotation d5_judgment"
    by (simp add: needs_annotation_def d5_judgment_def)
  ultimately show ?thesis using s1 s2 by simp
qed

text \<open>
  The whole of \<open>main\<close> on the game 1. d4 d5 with the scripted engine and the default
  depth: the final move 1... d5 gets the branch of the best move (the same move), 1. d4
  gets its comment and the branch 1. e4 e5 2. Nf3 with the evaluation at its end, and
  the root gets the comment that names the engine and the depth.
\<close>

lemma main_two_move_game:
  "\<exists>st'. main scripted no_rules ''Stockfish'' None two_move_game 0 idle_engine empty_info
       = Some (Inr st')
     \<and> comment (nodes st' 0) = ''Stockfish Depth: 12''
     \<and> variations (nodes st' 0) = [1, 4] \<and> variations (nodes st' 1) = [2, 3]
     \<and> comment (nodes st' 1) = ''-0.20'' \<and> nags (nodes st' 1) = []
     \<and> map (\<lambda>q. move (nodes st' q)) [4, 5, 6] = [Some e2e4, Some e7e5, Some g1f3]
     \<and> comment (nodes st' 6) = ''0.35''
     \<and> next_ref st' = 7"
  by (simp add: main_def end_node.simps walk.simps root.simps judge_move_def position_def
      go_def eval_numeric_def lookup_def analyze_final_def walk_step_def board_of_def
      recursion_limit_def board_upto.simps played_def push_def pop_def needs_annotation_def
      get_nags_def str_int_def tree_defs example_defs text_defs)

end
